theory Spec2Isabelle
  imports Complex_Main "HOL-Library.Word" "HOL-Library.Signed_Division"
begin

section \<open>Configuration (pkg/whispercpp/config.go)\<close>

text \<open>
  Go's \<open>int\<close> is a 64-bit two's complement integer on the platforms the service is
  built for: multiplication wraps around, division truncates towards zero.
\<close>

type_synonym go_int = "64 word"

record Config =
  ModelPath :: string
  Threads :: go_int
  MaxAudioLen :: go_int
  SampleRate :: go_int
  Language :: string
  EnableVAD :: bool
  VADThreshold :: real
  WakeWord :: string

definition DefaultConfig :: Config where
  "DefaultConfig =
     \<lparr> ModelPath = ''/Users/zakicole/alfred/models/ggml-base.en.bin'',
       Threads = 4,
       MaxAudioLen = 30,
       SampleRate = 16000,
       Language = ''en'',
       EnableVAD = True,
       VADThreshold = 1 / 2,
       WakeWord = ''alfred'' \<rparr>"

section \<open>The accumulator loop (processAudio in pkg/whispercpp/service.go)\<close>

text \<open>
  The two thresholds are computed once, before the loop:
  \<^verbatim>\<open>bufferSize := s.config.SampleRate * 3\<close> and
  \<^verbatim>\<open>minBufferSize := s.config.SampleRate / 2\<close>.
  The product wraps in 64 bits; the quotient by 2 cannot overflow and truncates
  towards zero.
\<close>

definition bufferSize :: "Config \<Rightarrow> int" where
  "bufferSize cfg = sint (SampleRate cfg * 3)"

definition minBufferSize :: "Config \<Rightarrow> int" where
  "minBufferSize cfg = sint (SampleRate cfg) sdiv 2"

text \<open>
  One turn of the \<^verbatim>\<open>select\<close>: the context is done, a chunk is received from the
  audio queue, or the 500 ms timer (armed afresh at every turn) fires. The samples are
  never inspected, so their type is a parameter.
\<close>

datatype 'a event = Done | Chunk "'a list" | Timeout

text \<open>
  The loop's state: the local \<^verbatim>\<open>audioBuffer\<close>, the windows handed to
  \<^verbatim>\<open>go s.transcribeAudio(audioBuffer)\<close> so far (in dispatch order), and whether the
  loop has returned.
\<close>

record 'a loop_state =
  audioBuffer :: "'a list"
  dispatched :: "'a list list"
  returned :: bool

definition loop_init :: "'a loop_state" where
  "loop_init = \<lparr> audioBuffer = [], dispatched = [], returned = False \<rparr>"

definition flush :: "'a list \<Rightarrow> 'a loop_state \<Rightarrow> 'a loop_state" where
  \<comment> \<open>\<^verbatim>\<open>go s.transcribeAudio(audioBuffer); audioBuffer = nil\<close>\<close>
  "flush b st = st\<lparr> audioBuffer := [], dispatched := dispatched st @ [b] \<rparr>"

definition processAudio_step :: "Config \<Rightarrow> 'a event \<Rightarrow> 'a loop_state \<Rightarrow> 'a loop_state" where
  "processAudio_step cfg ev st =
     (if returned st then st
      else case ev of
        Done \<Rightarrow> st\<lparr> returned := True \<rparr>
      | Chunk data \<Rightarrow>
          (let b = audioBuffer st @ data
           in if bufferSize cfg \<le> int (length b) then flush b st
              else st\<lparr> audioBuffer := b \<rparr>)
      | Timeout \<Rightarrow>
          (if minBufferSize cfg \<le> int (length (audioBuffer st)) then flush (audioBuffer st) st
           else st))"

definition processAudio :: "Config \<Rightarrow> 'a event list \<Rightarrow> 'a loop_state" where
  "processAudio cfg evs = foldl (\<lambda>st ev. processAudio_step cfg ev st) loop_init evs"

section \<open>Strings\<close>

text \<open>
  A Go string is a sequence of bytes, here a \<^typ>\<open>string\<close>. The functions of package
  \<^verbatim>\<open>strings\<close> that the service calls are written out below. \<open>ToLower\<close> and
  \<open>TrimSpace\<close> act on ASCII as the library does; bytes above 127 (UTF-8 encoded text
  beyond ASCII) are left as they are and are not white space.
\<close>

definition toLower_char :: "char \<Rightarrow> char" where
  "toLower_char c =
     (if 65 \<le> (of_char c :: nat) \<and> (of_char c :: nat) \<le> 90
      then char_of (of_char c + (32 :: nat)) else c)"

definition ToLower :: "string \<Rightarrow> string" where
  "ToLower s = map toLower_char s"

definition isSpace :: "char \<Rightarrow> bool" where
  \<comment> \<open>tab, line feed, vertical tab, form feed, carriage return, space\<close>
  "isSpace c =
     (c = CHR 0x09 \<or> c = CHR 0x0A \<or> c = CHR 0x0B \<or> c = CHR 0x0C \<or> c = CHR 0x0D \<or> c = CHR '' '')"

definition TrimSpace :: "string \<Rightarrow> string" where
  "TrimSpace s = rev (dropWhile isSpace (rev (dropWhile isSpace s)))"

fun HasPrefix :: "string \<Rightarrow> string \<Rightarrow> bool" where
  "HasPrefix s [] = True"
| "HasPrefix [] (p # ps) = False"
| "HasPrefix (c # cs) (p # ps) = (c = p \<and> HasPrefix cs ps)"

fun Index :: "string \<Rightarrow> string \<Rightarrow> nat option" where
  \<comment> \<open>offset of the first occurrence of \<open>sub\<close> in \<open>s\<close>; \<open>None\<close> is Go's \<open>-1\<close>\<close>
  "Index [] sub = (if sub = [] then Some 0 else None)"
| "Index (c # cs) sub =
     (if HasPrefix (c # cs) sub then Some 0 else map_option Suc (Index cs sub))"

definition Contains :: "string \<Rightarrow> string \<Rightarrow> bool" where
  "Contains s sub = (Index s sub \<noteq> None)"


section \<open>Channels\<close>

text \<open>
  A buffered Go channel: the queued elements, the capacity given to \<^verbatim>\<open>make\<close>, and
  whether \<^verbatim>\<open>close\<close> has been called. Both channels of the service are buffered
  (capacities 1000 and 100), so a send can proceed exactly when the buffer has room.
  A send on a closed channel panics, also inside a \<^verbatim>\<open>select\<close>; closing a closed
  channel panics; a send on a full channel blocks.
\<close>

record 'a chan =
  buf :: "'a list"
  cap :: nat
  closed :: bool

definition make_chan :: "nat \<Rightarrow> 'a chan" where
  "make_chan n = \<lparr> buf = [], cap = n, closed = False \<rparr>"

datatype 'a send_result = Sent "'a chan" | WouldBlock | SendOnClosed

definition chan_send :: "'a chan \<Rightarrow> 'a \<Rightarrow> 'a send_result" where
  "chan_send ch v =
     (if closed ch then SendOnClosed
      else if length (buf ch) < cap ch then Sent (ch\<lparr> buf := buf ch @ [v] \<rparr>)
      else WouldBlock)"

definition chan_close :: "'a chan \<Rightarrow> 'a chan option" where
  \<comment> \<open>\<open>None\<close>: panic, close of closed channel\<close>
  "chan_close ch = (if closed ch then None else Some (ch\<lparr> closed := True \<rparr>))"

section \<open>The recognition engine adapter (pkg/whispercpp/model.go)\<close>

datatype whisper_Model = WhisperModel string

record Model =
  mconfig :: Config
  wmodel :: "whisper_Model option"

text \<open>
  The whisper.cpp binding is outside the repository. For one call it is a function
  from the samples to either an error message (creating the context or processing the
  audio failed) or the texts of the segments that \<^verbatim>\<open>NextSegment\<close> yields.
\<close>

type_synonym 'a engine = "'a list \<Rightarrow> string + string list"

definition Transcribe :: "'a engine \<Rightarrow> Model \<Rightarrow> 'a list \<Rightarrow> string + string" where
  "Transcribe eng m samples =
     (case wmodel m of
        None \<Rightarrow> Inl ''model not initialized''
      | Some h \<Rightarrow>
          (case eng samples of
             Inl e \<Rightarrow> Inl e
           | Inr segs \<Rightarrow> Inr (foldl (\<lambda>out seg. out @ seg @ '' '') [] segs)))"

definition Model_Close :: "Model \<Rightarrow> Model" where
  "Model_Close m = m\<lparr> wmodel := None \<rparr>"

section \<open>The service (pkg/whispercpp/service.go)\<close>

record TranscriptionResult =
  Text :: string
  IsFinal :: bool
  IsWakeWord :: bool
  Confidence :: real

text \<open>
  A websocket connection is a pointer, here a number. The cancel function of the
  driving context is absent before \<open>Initialize\<close>, then live, then called.
\<close>

type_synonym conn = nat

datatype cancel_state = NoCancelFunc | ContextLive | ContextCancelled

text \<open>
  The fields of the struct (the two mutexes apart), followed by what the service has
  done to its websocket peers: the connections it has closed and the results each
  connection has been sent.
\<close>

record 'a WhisperService =
  config :: Config
  model :: "Model option"
  audioQueue :: "'a list chan"
  results :: "TranscriptionResult chan"
  cancelFunc :: cancel_state
  running :: bool
  connections :: "conn \<rightharpoonup> bool"
  wsClosed :: "conn set"
  wsSent :: "conn \<Rightarrow> TranscriptionResult list"

text \<open>
  A call returns, panics (which ends the process: nothing recovers), or blocks. A send
  that blocks on a full channel proceeds once a receiver has made room; what the call
  then does is what it does from the state with room.
\<close>

datatype 'r outcome = Returned 'r | Panicked string | Blocked

text \<open>
  \<open>NewWhisperService\<close> once the model file has been found and loaded (the only way it
  returns a service): the model is present, both channels are open and empty.
\<close>

definition NewWhisperService :: "Config \<Rightarrow> Model \<Rightarrow> 'a WhisperService" where
  "NewWhisperService cfg m =
     \<lparr> config = cfg, model = Some m,
       audioQueue = make_chan 1000, results = make_chan 100,
       cancelFunc = NoCancelFunc, running = False,
       connections = Map.empty, wsClosed = {}, wsSent = (\<lambda>c. []) \<rparr>"

text \<open>
  \<open>Initialize\<close> holds \<open>s.mu\<close> throughout. The two goroutines it starts are the loops
  \<open>processAudio\<close> (above) and \<open>broadcastResults\<close> (which calls \<open>BroadcastResult\<close>).
\<close>

definition Initialize :: "'a WhisperService \<Rightarrow> 'a WhisperService" where
  "Initialize s =
     (if running s then s
      else s\<lparr> running := True, cancelFunc := ContextLive \<rparr>)"

text \<open>
  \<open>ProcessAudio\<close> reads \<open>s.running\<close> and sends in a \<^verbatim>\<open>select\<close> with a
  \<^verbatim>\<open>default\<close> branch; it does not lock \<open>s.mu\<close>. Its two errors are
  \<^verbatim>\<open>service not running\<close> and \<^verbatim>\<open>audio queue full\<close>.
\<close>

datatype service_error = ServiceNotRunning | AudioQueueFull

definition error_message :: "service_error \<Rightarrow> string" where
  "error_message e =
     (case e of ServiceNotRunning \<Rightarrow> ''service not running'' | AudioQueueFull \<Rightarrow> ''audio queue full'')"

definition ProcessAudio ::
  "'a WhisperService \<Rightarrow> 'a list \<Rightarrow> (service_error option \<times> 'a WhisperService) outcome" where
  "ProcessAudio s audioData =
     (if \<not> running s then Returned (Some ServiceNotRunning, s)
      else case chan_send (audioQueue s) audioData of
        Sent q \<Rightarrow> Returned (None, s\<lparr> audioQueue := q \<rparr>)
      | WouldBlock \<Rightarrow> Returned (Some AudioQueueFull, s)
      | SendOnClosed \<Rightarrow> Panicked ''send on closed channel'')"

text \<open>
  \<open>transcribeAudio\<close> holds \<open>s.mu\<close> from its first statement to its return, as
  \<open>Initialize\<close> and \<open>Close\<close> do, so the three are atomic with respect to one another.
  What it logs is part of its result.
\<close>

datatype worker_log = LogModelNotInitialized | LogTranscriptionError string | LogNothing | LogWakeWord string

definition transcribeAudio ::
  "'a engine \<Rightarrow> 'a WhisperService \<Rightarrow> 'a list \<Rightarrow> (worker_log \<times> 'a WhisperService) outcome" where
  "transcribeAudio eng s audioData =
     (case model s of
        None \<Rightarrow> Returned (LogModelNotInitialized, s)
      | Some m \<Rightarrow>
          (case Transcribe eng m audioData of
             Inl err \<Rightarrow> Returned (LogTranscriptionError err, s)
           | Inr txt \<Rightarrow>
               (let lowerText = ToLower (TrimSpace txt);
                    isWakeWord = (Contains lowerText ''initiate alfred protocol'' \<or>
                                  Contains lowerText ''hi alfred'' \<or>
                                  Contains lowerText ''hey alfred'');
                    result = \<lparr> Text = txt, IsFinal = True, IsWakeWord = isWakeWord, Confidence = 0 \<rparr>
                in case chan_send (results s) result of
                     Sent ch \<Rightarrow>
                       Returned (if isWakeWord then LogWakeWord txt else LogNothing, s\<lparr> results := ch \<rparr>)
                   | WouldBlock \<Rightarrow> Blocked
                   | SendOnClosed \<Rightarrow> Panicked ''send on closed channel'')))"

definition AddWebSocket :: "conn \<Rightarrow> 'a WhisperService \<Rightarrow> 'a WhisperService" where
  "AddWebSocket c s = s\<lparr> connections := (connections s)(c \<mapsto> True) \<rparr>"

definition RemoveWebSocket :: "conn \<Rightarrow> 'a WhisperService \<Rightarrow> 'a WhisperService" where
  "RemoveWebSocket c s = s\<lparr> connections := (connections s)(c := None) \<rparr>"

text \<open>
  \<open>BroadcastResult\<close> ranges over the map of connections. Go produces the keys in an
  order of its choosing, each key once, and skips a key deleted before it is reached;
  the order is the list \<open>order\<close>. Whether \<^verbatim>\<open>conn.WriteJSON(result)\<close> returns an
  error is decided by the peer: \<open>fails\<close>.
\<close>

fun BroadcastResult_loop ::
  "(conn \<Rightarrow> bool) \<Rightarrow> TranscriptionResult \<Rightarrow> conn list \<Rightarrow> 'a WhisperService \<Rightarrow> 'a WhisperService" where
  "BroadcastResult_loop fails result [] s = s"
| "BroadcastResult_loop fails result (c # cs) s =
     (if connections s c = None then BroadcastResult_loop fails result cs s
      else if fails c then
        BroadcastResult_loop fails result cs
          (s\<lparr> connections := (connections s)(c := None), wsClosed := insert c (wsClosed s) \<rparr>)
      else
        BroadcastResult_loop fails result cs
          (s\<lparr> wsSent := (wsSent s)(c := wsSent s c @ [result]) \<rparr>))"

definition BroadcastResult ::
  "(conn \<Rightarrow> bool) \<Rightarrow> conn list \<Rightarrow> TranscriptionResult \<Rightarrow> 'a WhisperService \<Rightarrow> 'a WhisperService" where
  "BroadcastResult fails order result s = BroadcastResult_loop fails result order s"

definition range_order :: "conn list \<Rightarrow> 'a WhisperService \<Rightarrow> bool" where
  \<comment> \<open>\<open>order\<close> lists the keys of the map, each once\<close>
  "range_order order s = (distinct order \<and> set order = dom (connections s))"

fun close_connections :: "conn list \<Rightarrow> 'a WhisperService \<Rightarrow> 'a WhisperService" where
  "close_connections [] s = s"
| "close_connections (c # cs) s =
     (if connections s c = None then close_connections cs s
      else close_connections cs
        (s\<lparr> connections := (connections s)(c := None), wsClosed := insert c (wsClosed s) \<rparr>))"

text \<open>
  \<open>Close\<close> holds \<open>s.mu\<close> throughout: it calls the cancel function if there is one,
  clears \<open>running\<close>, closes and deletes every connection, closes both channels,
  closes the model (\<open>Model_Close\<close>) and forgets it.
\<close>

definition Close :: "conn list \<Rightarrow> 'a WhisperService \<Rightarrow> 'a WhisperService outcome" where
  "Close order s =
     (let s1 = s\<lparr> cancelFunc := (if cancelFunc s = NoCancelFunc then NoCancelFunc else ContextCancelled) \<rparr>;
          s2 = s1\<lparr> running := False \<rparr>;
          s3 = close_connections order s2
      in case chan_close (audioQueue s3) of
           None \<Rightarrow> Panicked ''close of closed channel''
         | Some q \<Rightarrow>
             (case chan_close (results s3) of
                None \<Rightarrow> Panicked ''close of closed channel''
              | Some r \<Rightarrow> Returned (s3\<lparr> audioQueue := q, results := r, model := None \<rparr>)))"

text \<open>
  The operations that hold \<open>s.mu\<close> or act on one channel or on the registry in one
  step, as one type, and runs of them. A receive takes the oldest queued element, if
  there is one (the accumulator loop on the audio queue, the broadcaster on the results).
\<close>

datatype 'a operation =
    OpInitialize
  | OpProcessAudio "'a list"
  | OpTranscribe "'a list"
  | OpReceiveAudio
  | OpReceiveResult
  | OpAddWebSocket conn
  | OpRemoveWebSocket conn
  | OpBroadcastResult "conn \<Rightarrow> bool" "conn list" TranscriptionResult
  | OpClose "conn list"

definition apply_operation ::
  "'a engine \<Rightarrow> 'a operation \<Rightarrow> 'a WhisperService \<Rightarrow> 'a WhisperService outcome" where
  "apply_operation eng oper s =
     (case oper of
        OpInitialize \<Rightarrow> Returned (Initialize s)
      | OpProcessAudio d \<Rightarrow>
          (case ProcessAudio s d of
             Returned (e, s') \<Rightarrow> Returned s' | Panicked msg \<Rightarrow> Panicked msg | Blocked \<Rightarrow> Blocked)
      | OpTranscribe d \<Rightarrow>
          (case transcribeAudio eng s d of
             Returned (l, s') \<Rightarrow> Returned s' | Panicked msg \<Rightarrow> Panicked msg | Blocked \<Rightarrow> Blocked)
      | OpReceiveAudio \<Rightarrow> Returned (s\<lparr> audioQueue := (audioQueue s)\<lparr> buf := tl (buf (audioQueue s)) \<rparr> \<rparr>)
      | OpReceiveResult \<Rightarrow> Returned (s\<lparr> results := (results s)\<lparr> buf := tl (buf (results s)) \<rparr> \<rparr>)
      | OpAddWebSocket c \<Rightarrow> Returned (AddWebSocket c s)
      | OpRemoveWebSocket c \<Rightarrow> Returned (RemoveWebSocket c s)
      | OpBroadcastResult fails order r \<Rightarrow> Returned (BroadcastResult fails order r s)
      | OpClose order \<Rightarrow> Close order s)"

fun run_operations ::
  "'a engine \<Rightarrow> 'a operation list \<Rightarrow> 'a WhisperService \<Rightarrow> 'a WhisperService outcome" where
  "run_operations eng [] s = Returned s"
| "run_operations eng (oper # opers) s =
     (case apply_operation eng oper s of
        Returned s' \<Rightarrow> run_operations eng opers s'
      | Panicked msg \<Rightarrow> Panicked msg
      | Blocked \<Rightarrow> Blocked)"


definition example_model :: Model where
  "example_model =
     \<lparr> mconfig = DefaultConfig, wmodel = Some (WhisperModel ''models/ggml-base.en.bin'') \<rparr>"

definition example_service :: "nat WhisperService" where
  "example_service = NewWhisperService DefaultConfig example_model"

definition example_engine :: "string list \<Rightarrow> nat engine" where
  "example_engine segs = (\<lambda>samples. Inr segs)"



text \<open>Rounds of broadcasting, each with its own order, failing peers and result.\<close>

fun broadcast_rounds ::
  "((conn \<Rightarrow> bool) \<times> conn list \<times> TranscriptionResult) list \<Rightarrow> 'a WhisperService \<Rightarrow> 'a WhisperService" where
  "broadcast_rounds [] s = s"
| "broadcast_rounds ((fails, order, r) # rounds) s =
     broadcast_rounds rounds (BroadcastResult fails order r s)"


text \<open>A result, and a service with two registered connections.\<close>

definition example_result :: TranscriptionResult where
  "example_result = \<lparr> Text = ''hello '', IsFinal = True, IsWakeWord = False, Confidence = 0 \<rparr>"

definition two_connections :: "nat WhisperService" where
  "two_connections = AddWebSocket 2 (AddWebSocket 1 example_service)"

text \<open>The example service after \<open>Initialize\<close> and \<open>Close\<close>.\<close>

definition closed_service :: "nat WhisperService" where
  "closed_service =
     \<lparr> config = DefaultConfig, model = None,
       audioQueue = \<lparr> buf = [], cap = 1000, closed = True \<rparr>,
       results = \<lparr> buf = [], cap = 100, closed = True \<rparr>,
       cancelFunc = ContextCancelled, running = False,
       connections = Map.empty, wsClosed = {}, wsSent = (\<lambda>c. []) \<rparr>"

section \<open>Verbal-response extraction (ExtractVerbalResponse in pkg/tts/service.go)\<close>

















section \<open>Goroutines and the service mutex\<close>

text \<open>
  Three methods lock \<open>s.mu\<close>: \<open>transcribeAudio\<close>, \<open>Close\<close> and \<open>Initialize\<close>. Each
  begins with \<^verbatim>\<open>s.mu.Lock()\<close> and \<^verbatim>\<open>defer s.mu.Unlock()\<close>, so it unlocks when it
  returns, by whichever path. \<open>Model.Transcribe\<close> is called from \<open>transcribeAudio\<close>
  only. A goroutine running one of the methods is at one of these points:
\<close>

datatype routine = TranscribeAudio | CloseService | InitializeService

datatype pc =
    AtLock routine  \<comment> \<open>at \<^verbatim>\<open>s.mu.Lock()\<close>, not yet acquired\<close>
  | ModelCheck  \<comment> \<open>\<open>transcribeAudio\<close>, at \<^verbatim>\<open>if s.model == nil\<close>\<close>
  | Transcribing  \<comment> \<open>\<open>transcribeAudio\<close>, inside \<^verbatim>\<open>s.model.Transcribe(audioData)\<close>\<close>
  | Emitting  \<comment> \<open>\<open>transcribeAudio\<close>, from the wake-word test to \<^verbatim>\<open>s.results <- result\<close>\<close>
  | InBody routine  \<comment> \<open>the body of \<open>Close\<close> or \<open>Initialize\<close>\<close>
  | AtUnlock  \<comment> \<open>returning: the deferred \<^verbatim>\<open>s.mu.Unlock()\<close>\<close>
  | Finished

text \<open>
  The mutex is locked or not (Go's \<^verbatim>\<open>sync.Mutex\<close> records no owner); \<open>Lock\<close> waits
  until it is unlocked and locks it, \<open>Unlock\<close> unlocks it.
\<close>

record sched =
  locked :: bool
  goroutines :: "nat \<rightharpoonup> pc"
  modelLoaded :: bool

definition sched_init :: sched where
  "sched_init = \<lparr> locked = False, goroutines = Map.empty, modelLoaded = True \<rparr>"

text \<open>
  The scheduler starts a goroutine on one of the methods (\<^verbatim>\<open>go s.transcribeAudio(...)\<close>
  in the accumulator loop, a call of \<open>Close\<close> or \<open>Initialize\<close> elsewhere), or lets a
  goroutine take its next step; for a goroutine inside the engine call the step is the
  call's return, with or without an error. A goroutine at \<open>Lock\<close> whose turn comes
  while the mutex is locked stays where it is.
\<close>

datatype sched_event = Go nat routine | Run nat bool

definition run_step :: "nat \<Rightarrow> bool \<Rightarrow> pc \<Rightarrow> sched \<Rightarrow> sched" where
  "run_step g ok p s =
     (case p of
        AtLock r \<Rightarrow>
          (if locked s then s
           else s\<lparr> locked := True,
                   goroutines := (goroutines s)(g \<mapsto> (if r = TranscribeAudio then ModelCheck else InBody r)) \<rparr>)
      | ModelCheck \<Rightarrow>
          s\<lparr> goroutines := (goroutines s)(g \<mapsto> (if modelLoaded s then Transcribing else AtUnlock)) \<rparr>
      | Transcribing \<Rightarrow>
          s\<lparr> goroutines := (goroutines s)(g \<mapsto> (if ok then Emitting else AtUnlock)) \<rparr>
      | Emitting \<Rightarrow> s\<lparr> goroutines := (goroutines s)(g \<mapsto> AtUnlock) \<rparr>
      | InBody r \<Rightarrow>
          s\<lparr> goroutines := (goroutines s)(g \<mapsto> AtUnlock),
             modelLoaded := (if r = CloseService then False else modelLoaded s) \<rparr>
      | AtUnlock \<Rightarrow> s\<lparr> locked := False, goroutines := (goroutines s)(g \<mapsto> Finished) \<rparr>
      | Finished \<Rightarrow> s)"

definition exec_event :: "sched_event \<Rightarrow> sched \<Rightarrow> sched" where
  "exec_event ev s =
     (case ev of
        Go g r \<Rightarrow>
          (if goroutines s g = None then s\<lparr> goroutines := (goroutines s)(g \<mapsto> AtLock r) \<rparr> else s)
      | Run g ok \<Rightarrow>
          (case goroutines s g of None \<Rightarrow> s | Some p \<Rightarrow> run_step g ok p s))"

definition schedule :: "sched_event list \<Rightarrow> sched" where
  "schedule evs = foldl (\<lambda>s ev. exec_event ev s) sched_init evs"

fun holds_mutex :: "pc \<Rightarrow> bool" where
  "holds_mutex (AtLock r) = False"
| "holds_mutex Finished = False"
| "holds_mutex p = True"

definition mutex_invariant :: "sched \<Rightarrow> bool" where
  "mutex_invariant s =
     ((\<forall>g h p q. goroutines s g = Some p \<and> goroutines s h = Some q \<and>
                 holds_mutex p \<and> holds_mutex q \<longrightarrow> g = h) \<and>
      (\<forall>g p. goroutines s g = Some p \<and> holds_mutex p \<longrightarrow> locked s))"

section \<open>Properties of the accumulator loop\<close>

lemma processAudio_snoc:
  "processAudio cfg (evs @ [ev]) = processAudio_step cfg ev (processAudio cfg evs)"
  by (simp add: processAudio_def)

lemma bufferSize_default: "bufferSize DefaultConfig = 48000"
  by (simp add: bufferSize_def DefaultConfig_def)

lemma minBufferSize_default: "minBufferSize DefaultConfig = 8000"
  by (simp add: minBufferSize_def DefaultConfig_def signed_divide_int_def)

lemma processAudio_append:
  "processAudio cfg (evs @ evs') =
     foldl (\<lambda>st ev. processAudio_step cfg ev st) (processAudio cfg evs) evs'"
  by (simp add: processAudio_def)

lemma timeout_idem:
  assumes "0 < minBufferSize cfg"
  shows "processAudio_step cfg Timeout (processAudio_step cfg Timeout st) =
         processAudio_step cfg Timeout st"
  using assms by (simp add: processAudio_step_def flush_def)

lemma timeouts_collapse:
  assumes "0 < minBufferSize cfg"
  shows "foldl (\<lambda>st ev. processAudio_step cfg ev st) st (replicate (Suc n) Timeout) =
         processAudio_step cfg Timeout st"
proof (induction n arbitrary: st)
  case 0
  show ?case by simp
next
  case (Suc n)
  have "foldl (\<lambda>st ev. processAudio_step cfg ev st) st (replicate (Suc (Suc n)) Timeout) =
        foldl (\<lambda>st ev. processAudio_step cfg ev st) (processAudio_step cfg Timeout st)
          (replicate (Suc n) Timeout)"
    by simp
  also have "\<dots> = processAudio_step cfg Timeout (processAudio_step cfg Timeout st)"
    by (rule Suc.IH)
  finally show ?case
    using timeout_idem [OF assms] by simp
qed

lemma timeout_step_dispatched:
  "\<not> returned st \<Longrightarrow>
   dispatched (processAudio_step cfg Timeout st) =
     dispatched st @
       (if minBufferSize cfg \<le> int (length (audioBuffer st)) then [audioBuffer st] else [])"
  by (simp add: processAudio_step_def flush_def)

lemma timeout_step_buffer:
  "\<not> returned st \<Longrightarrow> minBufferSize cfg \<le> int (length (audioBuffer st)) \<Longrightarrow>
   audioBuffer (processAudio_step cfg Timeout st) = []"
  by (simp add: processAudio_step_def flush_def)

subsection \<open>Flush on reaching the size threshold\<close>

text \<open>
  Claim C1. After any sequence of events that has not ended the loop, receiving a chunk
  that brings the open window to at least \<open>SampleRate * 3\<close> samples dispatches exactly
  one flush (the list of dispatched windows grows by the one window holding the old
  content followed by the chunk) and leaves the open window empty.
\<close>

theorem processAudio_threshold_flush:
  assumes "\<not> returned (processAudio cfg evs)"
    and "bufferSize cfg \<le> int (length (audioBuffer (processAudio cfg evs) @ d))"
  shows "audioBuffer (processAudio cfg (evs @ [Chunk d])) = [] \<and>
         dispatched (processAudio cfg (evs @ [Chunk d])) =
           dispatched (processAudio cfg evs) @ [audioBuffer (processAudio cfg evs) @ d]"
  using assms by (simp add: processAudio_snoc processAudio_step_def flush_def Let_def)

theorem processAudio_threshold_flush_witness:
  "\<not> returned (processAudio DefaultConfig ([] :: nat event list)) \<and>
   bufferSize DefaultConfig \<le>
     int (length (audioBuffer (processAudio DefaultConfig []) @ replicate 48000 (0::nat))) \<and>
   audioBuffer (processAudio DefaultConfig ([] @ [Chunk (replicate 48000 (0::nat))])) = [] \<and>
   dispatched (processAudio DefaultConfig ([] @ [Chunk (replicate 48000 (0::nat))])) =
     [replicate 48000 0]"
proof -
  have a: "\<not> returned (processAudio DefaultConfig ([] :: nat event list))"
    by (simp add: processAudio_def loop_init_def)
  have b: "bufferSize DefaultConfig \<le>
      int (length (audioBuffer (processAudio DefaultConfig []) @ replicate 48000 (0::nat)))"
    by (simp add: bufferSize_default processAudio_def loop_init_def)
  from processAudio_threshold_flush [OF a b] a b show ?thesis
    by (simp add: processAudio_def loop_init_def)
qed

subsection \<open>Flush on inactivity\<close>

text \<open>
  Claim C2, as stated, fails for a configuration whose minimum \<open>SampleRate / 2\<close> is
  not positive: with \<open>SampleRate = 0\<close> the empty window already holds the minimum, and
  every firing of the timer within one idle period dispatches another (empty) window.
\<close>

theorem processAudio_idle_flush_counterexample:
  "dispatched (processAudio (DefaultConfig\<lparr>SampleRate := 0\<rparr>) (replicate 3 Timeout)) =
     [[], [], [] :: nat list]"
  by (simp add: processAudio_def processAudio_step_def flush_def loop_init_def
      minBufferSize_def DefaultConfig_def signed_divide_int_def numeral_3_eq_3)

text \<open>
  Claim C2, amended. Provided the configured minimum \<open>SampleRate / 2\<close> is positive
  (\<open>SampleRate \<ge> 2\<close>, as with the default 16000): when the timer fires in a running
  loop, a flush of the open window is dispatched if and only if the window holds at
  least the minimum; after such a flush the window is empty; and any number of further
  timer firings with no chunk in between changes nothing, so an idle period dispatches
  at most one flush.
\<close>

theorem processAudio_idle_flush:
  assumes "0 < minBufferSize cfg" and "\<not> returned (processAudio cfg evs)"
  shows "dispatched (processAudio cfg (evs @ [Timeout])) =
           dispatched (processAudio cfg evs) @
             (if minBufferSize cfg \<le> int (length (audioBuffer (processAudio cfg evs)))
              then [audioBuffer (processAudio cfg evs)] else []) \<and>
         (minBufferSize cfg \<le> int (length (audioBuffer (processAudio cfg evs))) \<longrightarrow>
           audioBuffer (processAudio cfg (evs @ [Timeout])) = []) \<and>
         processAudio cfg (evs @ replicate (Suc n) Timeout) = processAudio cfg (evs @ [Timeout])"
proof -
  have "processAudio cfg (evs @ replicate (Suc n) Timeout) = processAudio cfg (evs @ [Timeout])"
    using timeouts_collapse [OF assms(1), of "processAudio cfg evs" n]
    by (simp add: processAudio_append)
  then show ?thesis
    using assms(2) by (simp add: processAudio_snoc timeout_step_dispatched timeout_step_buffer)
qed

theorem processAudio_idle_flush_witness:
  "0 < minBufferSize DefaultConfig \<and>
   \<not> returned (processAudio DefaultConfig [Chunk (replicate 8000 (0::nat))]) \<and>
   dispatched (processAudio DefaultConfig ([Chunk (replicate 8000 (0::nat))] @ [Timeout])) =
     [replicate 8000 0] \<and>
   audioBuffer (processAudio DefaultConfig ([Chunk (replicate 8000 (0::nat))] @ [Timeout])) = [] \<and>
   processAudio DefaultConfig ([Chunk (replicate 8000 (0::nat))] @ replicate (Suc 4) Timeout) =
     processAudio DefaultConfig ([Chunk (replicate 8000 (0::nat))] @ [Timeout])"
proof -
  have a: "0 < minBufferSize DefaultConfig"
    by (simp add: minBufferSize_default)
  have st: "processAudio DefaultConfig [Chunk (replicate 8000 (0::nat))] =
      \<lparr> audioBuffer = replicate 8000 0, dispatched = [], returned = False \<rparr>"
    by (simp add: processAudio_def processAudio_step_def loop_init_def bufferSize_default)
  have b: "\<not> returned (processAudio DefaultConfig [Chunk (replicate 8000 (0::nat))])"
    by (simp add: st)
  from processAudio_idle_flush [OF a b, of 4] a b show ?thesis
    by (simp add: st minBufferSize_default)
qed

section \<open>Properties of the string functions\<close>

lemma HasPrefix_iff: "HasPrefix s p \<longleftrightarrow> (\<exists>post. s = p @ post)"
  by (induction s p rule: HasPrefix.induct) auto




section \<open>Properties of the transcription worker\<close>

subsection \<open>Wake-phrase detection\<close>













lemma ProcessAudio_results:
  "ProcessAudio s d = Returned (e, s') \<Longrightarrow> results s' = results s \<and> model s' = model s"
  by (auto simp: ProcessAudio_def split: if_splits send_result.splits)

lemma BroadcastResult_loop_keeps:
  "results (BroadcastResult_loop fails r order s) = results s \<and>
   model (BroadcastResult_loop fails r order s) = model s \<and>
   audioQueue (BroadcastResult_loop fails r order s) = audioQueue s \<and>
   running (BroadcastResult_loop fails r order s) = running s"
  by (induction fails r order s rule: BroadcastResult_loop.induct) simp_all

lemma close_connections_keeps:
  "results (close_connections order s) = results s \<and>
   model (close_connections order s) = model s \<and>
   audioQueue (close_connections order s) = audioQueue s \<and>
   running (close_connections order s) = running s \<and>
   cancelFunc (close_connections order s) = cancelFunc s"
  by (induction order s rule: close_connections.induct) simp_all

lemma Close_Returned:
  "Close order s = Returned s' \<Longrightarrow>
     model s' = None \<and> \<not> running s' \<and> closed (results s') \<and> closed (audioQueue s') \<and>
     buf (results s') = buf (results s)"
  by (auto simp: Close_def Let_def chan_close_def close_connections_keeps
      split: option.splits if_splits)





lemma apply_operation_model_None:
  assumes "apply_operation eng oper s = Returned s'" and "model s = None"
  shows "model s' = None"
proof (cases oper)
  case (OpProcessAudio d)
  with assms show ?thesis
    by (auto simp: apply_operation_def split: outcome.splits dest: ProcessAudio_results)
next
  case (OpTranscribe d)
  with assms show ?thesis
    by (auto simp: apply_operation_def transcribeAudio_def split: outcome.splits)
next
  case (OpClose order)
  with assms show ?thesis
    by (auto simp: apply_operation_def dest: Close_Returned)
qed (use assms in \<open>auto simp: apply_operation_def Initialize_def AddWebSocket_def
      RemoveWebSocket_def BroadcastResult_def BroadcastResult_loop_keeps\<close>)

lemma run_operations_model_None:
  "run_operations eng opers s = Returned s' \<Longrightarrow> model s = None \<Longrightarrow> model s' = None"
proof (induction opers arbitrary: s)
  case Nil
  then show ?case by simp
next
  case (Cons oper opers)
  then show ?case
    by (auto split: outcome.splits dest: apply_operation_model_None)
qed

subsection \<open>A worker that runs after Close\<close>

text \<open>
  Claim C8. \<open>transcribeAudio\<close> and \<open>Close\<close> both hold \<open>s.mu\<close> for their whole
  bodies, so a worker either finishes (its send included) before \<open>Close\<close> starts, or
  starts after \<open>Close\<close> has returned. In the second case, whatever operations ran in
  between, the worker finds the model released, logs that the model is not
  initialized and returns: it does not panic, and it leaves the service as it was (no
  send on the closed results channel is attempted).
\<close>

theorem transcribeAudio_after_Close:
  assumes "Close order s = Returned s1" and "run_operations eng opers s1 = Returned s2"
  shows "transcribeAudio eng s2 d = Returned (LogModelNotInitialized, s2)"
proof -
  have "model s1 = None" using assms(1) by (simp add: Close_Returned)
  then have "model s2 = None" using assms(2) by (rule run_operations_model_None [rotated])
  then show ?thesis by (simp add: transcribeAudio_def)
qed

lemma Close_example: "Close [] (Initialize example_service) = Returned closed_service"
  by (simp add: Close_def Initialize_def example_service_def NewWhisperService_def make_chan_def
      chan_close_def Let_def closed_service_def)

lemma closed_service_run:
  "run_operations eng [OpProcessAudio [], OpTranscribe []] closed_service = Returned closed_service"
  by (simp add: apply_operation_def ProcessAudio_def transcribeAudio_def closed_service_def)

theorem transcribeAudio_after_Close_witness:
  "Close [] (Initialize example_service) = Returned closed_service \<and>
   run_operations (example_engine [''late'']) [OpProcessAudio [], OpTranscribe []] closed_service =
     Returned closed_service \<and>
   transcribeAudio (example_engine [''late'']) closed_service [] =
     Returned (LogModelNotInitialized, closed_service)"
  using transcribeAudio_after_Close [OF Close_example closed_service_run, of "example_engine [''late'']" "[]"]
    Close_example closed_service_run [of "example_engine [''late'']"]
  by simp

subsection \<open>Results are final\<close>




section \<open>Properties of the lifecycle and of the ingestion queue\<close>

text \<open>
  Claim C7 says that a closed service never runs again. The code at Initialize, Close,
  Initialize: the second \<open>Initialize\<close> finds \<open>running\<close> false and sets it again, on a
  service whose channels are closed and whose model is released.
\<close>

theorem Initialize_after_Close_runs:
  "\<exists>s. run_operations eng [OpInitialize, OpClose [], OpInitialize] (NewWhisperService cfg m) = Returned s
       \<and> running s \<and> closed (audioQueue s) \<and> closed (results s) \<and> model s = None"
  by (simp add: apply_operation_def Initialize_def Close_def NewWhisperService_def make_chan_def
      chan_close_def Let_def)

text \<open>
  Claim C4 says that \<open>ProcessAudio\<close> fails with an error when the service is not
  running and otherwise enqueues or reports a full queue. The code after Initialize,
  Close, Initialize: \<open>running\<close> is true, the send meets the closed queue and panics.
\<close>

theorem ProcessAudio_after_reinitialize_panics:
  "run_operations eng [OpInitialize, OpClose [], OpInitialize, OpProcessAudio d]
     (NewWhisperService cfg m) = Panicked ''send on closed channel''"
  by (simp add: apply_operation_def Initialize_def Close_def NewWhisperService_def make_chan_def
      chan_close_def Let_def ProcessAudio_def chan_send_def)

text \<open>
  While the audio queue is open, \<open>ProcessAudio\<close> does what claim C4 says; it never
  blocks.
\<close>

lemma ProcessAudio_contract:
  "(\<not> running s \<longrightarrow> ProcessAudio s d = Returned (Some ServiceNotRunning, s)) \<and>
   (running s \<and> \<not> closed (audioQueue s) \<and> cap (audioQueue s) \<le> length (buf (audioQueue s)) \<longrightarrow>
      ProcessAudio s d = Returned (Some AudioQueueFull, s)) \<and>
   (running s \<and> \<not> closed (audioQueue s) \<and> length (buf (audioQueue s)) < cap (audioQueue s) \<longrightarrow>
      ProcessAudio s d =
        Returned (None, s\<lparr> audioQueue := (audioQueue s)\<lparr> buf := buf (audioQueue s) @ [d] \<rparr> \<rparr>)) \<and>
   ProcessAudio s d \<noteq> Blocked"
  by (auto simp: ProcessAudio_def chan_send_def)

section \<open>Properties of the broadcast\<close>

lemma BroadcastResult_loop_connections:
  "connections (BroadcastResult_loop fails r order s) k =
     (if k \<in> set order \<and> fails k then None else connections s k)"
  by (induction fails r order s rule: BroadcastResult_loop.induct) auto

lemma BroadcastResult_loop_wsClosed:
  "wsClosed (BroadcastResult_loop fails r order s) =
     wsClosed s \<union> {k \<in> set order. connections s k \<noteq> None \<and> fails k}"
  by (induction fails r order s rule: BroadcastResult_loop.induct) auto

lemma BroadcastResult_loop_wsSent:
  "distinct order \<Longrightarrow>
   wsSent (BroadcastResult_loop fails r order s) k =
     (if k \<in> set order \<and> connections s k \<noteq> None \<and> \<not> fails k
      then wsSent s k @ [r] else wsSent s k)"
  by (induction fails r order s rule: BroadcastResult_loop.induct) auto

lemma BroadcastResult_loop_absent:
  "connections s k = None \<Longrightarrow>
   wsSent (BroadcastResult_loop fails r order s) k = wsSent s k \<and>
   connections (BroadcastResult_loop fails r order s) k = None"
  by (induction fails r order s rule: BroadcastResult_loop.induct) auto

lemma broadcast_rounds_absent:
  "connections s k = None \<Longrightarrow>
   wsSent (broadcast_rounds rounds s) k = wsSent s k \<and>
   connections (broadcast_rounds rounds s) k = None"
proof (induction rounds s rule: broadcast_rounds.induct)
  case (1 s)
  then show ?case by simp
next
  case (2 fails order r rounds s)
  from BroadcastResult_loop_absent [OF "2.prems", of fails r order]
  have a: "wsSent (BroadcastResult fails order r s) k = wsSent s k"
    and b: "connections (BroadcastResult fails order r s) k = None"
    by (simp_all add: BroadcastResult_def)
  from "2.IH" [OF b] a show ?case by simp
qed

text \<open>
  Claim C5. In one broadcast over the registry: the connections left are those whose
  write succeeded; every registered connection whose write fails is removed, is closed
  in that same broadcast, and is sent nothing in any later round of broadcasts; every
  registered connection whose write succeeds stays registered, is not closed by the
  broadcast and has the result appended to what it was sent.
\<close>

theorem BroadcastResult_prunes:
  assumes "range_order order s"
  shows "dom (connections (BroadcastResult fails order r s)) = {c \<in> dom (connections s). \<not> fails c} \<and>
         (\<forall>c \<in> dom (connections s). fails c \<longrightarrow>
            c \<notin> dom (connections (BroadcastResult fails order r s)) \<and>
            c \<in> wsClosed (BroadcastResult fails order r s) \<and>
            wsSent (broadcast_rounds rounds (BroadcastResult fails order r s)) c = wsSent s c) \<and>
         (\<forall>c \<in> dom (connections s). \<not> fails c \<longrightarrow>
            connections (BroadcastResult fails order r s) c = connections s c \<and>
            c \<in> wsClosed (BroadcastResult fails order r s) = (c \<in> wsClosed s) \<and>
            wsSent (BroadcastResult fails order r s) c = wsSent s c @ [r])"
proof -
  let ?s' = "BroadcastResult fails order r s"
  from assms have d: "distinct order" and o: "set order = dom (connections s)"
    by (simp_all add: range_order_def)
  have conns: "\<And>k. connections ?s' k = (if k \<in> dom (connections s) \<and> fails k then None else connections s k)"
    by (simp add: BroadcastResult_def BroadcastResult_loop_connections o)
  have dom: "dom (connections ?s') = {c \<in> dom (connections s). \<not> fails c}"
    by (auto simp: conns dom_def)
  have failing: "c \<notin> dom (connections ?s') \<and> c \<in> wsClosed ?s' \<and>
      wsSent (broadcast_rounds rounds ?s') c = wsSent s c"
    if "c \<in> dom (connections s)" "fails c" for c
  proof -
    have n: "connections ?s' c = None" using that by (simp add: conns)
    have "wsSent ?s' c = wsSent s c"
      using that by (simp add: BroadcastResult_def BroadcastResult_loop_wsSent [OF d])
    with broadcast_rounds_absent [OF n, of rounds]
    have "wsSent (broadcast_rounds rounds ?s') c = wsSent s c" by simp
    moreover have "c \<in> wsClosed ?s'"
      using that by (auto simp: BroadcastResult_def BroadcastResult_loop_wsClosed o)
    ultimately show ?thesis using n by (simp add: domIff)
  qed
  have passing: "connections ?s' c = connections s c \<and>
      c \<in> wsClosed ?s' = (c \<in> wsClosed s) \<and> wsSent ?s' c = wsSent s c @ [r]"
    if "c \<in> dom (connections s)" "\<not> fails c" for c
  proof -
    have "connections ?s' c = connections s c" using that by (simp add: conns)
    moreover have "c \<in> wsClosed ?s' = (c \<in> wsClosed s)"
      using that by (auto simp: BroadcastResult_def BroadcastResult_loop_wsClosed)
    moreover have "wsSent ?s' c = wsSent s c @ [r]"
      using that by (auto simp: BroadcastResult_def BroadcastResult_loop_wsSent [OF d] o)
    ultimately show ?thesis by simp
  qed
  from dom failing passing show ?thesis by blast
qed


lemma two_connections_dom: "dom (connections two_connections) = {1, 2}"
  by (auto simp: two_connections_def AddWebSocket_def example_service_def NewWhisperService_def)

lemma two_connections_wsSent: "wsSent two_connections c = []"
  by (simp add: two_connections_def AddWebSocket_def example_service_def NewWhisperService_def)

text \<open>
  Two registered connections, the second failing: the registry shrinks from 2 to 1 and
  the survivor has received the result.
\<close>

theorem BroadcastResult_prunes_witness:
  "range_order [2, 1] two_connections \<and>
   card (dom (connections two_connections)) = 2 \<and>
   card (dom (connections (BroadcastResult (\<lambda>c. c = 2) [2, 1] example_result two_connections))) = 1 \<and>
   wsSent (BroadcastResult (\<lambda>c. c = 2) [2, 1] example_result two_connections) 1 = [example_result] \<and>
   2 \<in> wsClosed (BroadcastResult (\<lambda>c. c = 2) [2, 1] example_result two_connections) \<and>
   wsSent (broadcast_rounds [(\<lambda>c. False, [1, 2], example_result)]
     (BroadcastResult (\<lambda>c. c = 2) [2, 1] example_result two_connections)) 2 = []"
proof -
  let ?s' = "BroadcastResult (\<lambda>c. c = 2) [2, 1] example_result two_connections"
  have ro: "range_order [2, 1] two_connections"
    by (auto simp: range_order_def two_connections_dom)
  note f = BroadcastResult_prunes [OF ro, of "\<lambda>c. c = 2" example_result
      "[(\<lambda>c. False, [1, 2], example_result)]"]
  have e: "{c \<in> dom (connections two_connections). c \<noteq> 2} = {1}"
    by (auto simp: two_connections_dom)
  have "dom (connections ?s') = {1}"
    using f [THEN conjunct1] e by (rule trans)
  then have c1: "card (dom (connections ?s')) = 1"
    by simp
  have c2: "card (dom (connections two_connections)) = 2"
    by (simp add: two_connections_dom)
  have in1: "1 \<in> dom (connections two_connections)" and in2: "2 \<in> dom (connections two_connections)"
    by (simp_all add: two_connections_dom)
  have ne: "\<not> (1::nat) = 2"
    by simp
  note g = f [THEN conjunct2, THEN conjunct1, rule_format, OF in2 refl]
  have failed1: "2 \<in> wsClosed ?s'"
    using g by (rule conjunct1 [OF conjunct2])
  have "wsSent (broadcast_rounds [(\<lambda>c. False, [1, 2], example_result)] ?s') 2 = wsSent two_connections 2"
    using g by (rule conjunct2 [OF conjunct2])
  then have failed2: "wsSent (broadcast_rounds [(\<lambda>c. False, [1, 2], example_result)] ?s') 2 = []"
    by (simp only: two_connections_wsSent)
  note h = f [THEN conjunct2, THEN conjunct2, rule_format, OF in1 ne]
  have "wsSent ?s' 1 = wsSent two_connections 1 @ [example_result]"
    using h by (rule conjunct2 [OF conjunct2])
  then have passed: "wsSent ?s' 1 = [example_result]"
    by (simp only: two_connections_wsSent append_Nil)
  from ro c2 c1 passed failed1 failed2 show ?thesis
    by (intro conjI)
qed

section \<open>Properties of the verbal-response extraction\<close>


lemma Index_first:
  "s = pre @ sub @ post \<Longrightarrow> \<exists>i \<le> length pre. Index s sub = Some i"
proof (induction pre arbitrary: s)
  case Nil
  then have "HasPrefix s sub" by (auto simp: HasPrefix_iff)
  then show ?case by (cases s) (auto elim: HasPrefix.elims)
next
  case (Cons a pre)
  then obtain cs where s: "s = a # cs" and cs: "cs = pre @ sub @ post" by simp
  from Cons.IH [OF cs] obtain i where "i \<le> length pre" "Index cs sub = Some i" by blast
  then show ?case by (auto simp: s)
qed

lemma Index_None: "Index s sub = None \<Longrightarrow> s \<noteq> pre @ sub @ post"
  using Index_first [of s pre sub post] by auto



















section \<open>Properties of the service mutex\<close>

lemma mutex_invariant_init: "mutex_invariant sched_init"
  by (simp add: mutex_invariant_def sched_init_def)

lemma mutex_invariant_unique:
  "mutex_invariant s \<Longrightarrow> goroutines s g = Some p \<Longrightarrow> goroutines s h = Some q \<Longrightarrow>
   holds_mutex p \<Longrightarrow> holds_mutex q \<Longrightarrow> g = h"
  unfolding mutex_invariant_def by blast

lemma mutex_invariant_locked:
  "mutex_invariant s \<Longrightarrow> goroutines s g = Some p \<Longrightarrow> holds_mutex p \<Longrightarrow> locked s"
  unfolding mutex_invariant_def by blast

lemma mutex_invariantI:
  assumes "\<And>g h p q. goroutines s g = Some p \<Longrightarrow> goroutines s h = Some q \<Longrightarrow>
             holds_mutex p \<Longrightarrow> holds_mutex q \<Longrightarrow> g = h"
    and "\<And>g p. goroutines s g = Some p \<Longrightarrow> holds_mutex p \<Longrightarrow> locked s"
  shows "mutex_invariant s"
  unfolding mutex_invariant_def using assms by blast

text \<open>The holder of the mutex moves to another point, keeping or releasing the mutex.\<close>

lemma holder_moves:
  assumes inv: "mutex_invariant s" and g: "goroutines s g = Some p" and p: "holds_mutex p"
    and l: "holds_mutex p' \<longrightarrow> l"
  shows "mutex_invariant (s\<lparr> locked := l, goroutines := (goroutines s)(g \<mapsto> p') \<rparr>)"
proof (rule mutex_invariantI)
  fix a b pa pb
  assume a: "goroutines (s\<lparr> locked := l, goroutines := (goroutines s)(g \<mapsto> p') \<rparr>) a = Some pa"
    and b: "goroutines (s\<lparr> locked := l, goroutines := (goroutines s)(g \<mapsto> p') \<rparr>) b = Some pb"
    and ha: "holds_mutex pa" and hb: "holds_mutex pb"
  have "a = g"
  proof (rule ccontr)
    assume "a \<noteq> g"
    with a have "goroutines s a = Some pa" by simp
    from mutex_invariant_unique [OF inv this g ha p] \<open>a \<noteq> g\<close> show False by simp
  qed
  moreover have "b = g"
  proof (rule ccontr)
    assume "b \<noteq> g"
    with b have "goroutines s b = Some pb" by simp
    from mutex_invariant_unique [OF inv this g hb p] \<open>b \<noteq> g\<close> show False by simp
  qed
  ultimately show "a = b" by simp
next
  fix a pa
  assume a: "goroutines (s\<lparr> locked := l, goroutines := (goroutines s)(g \<mapsto> p') \<rparr>) a = Some pa"
    and ha: "holds_mutex pa"
  have "a = g"
  proof (rule ccontr)
    assume "a \<noteq> g"
    with a have "goroutines s a = Some pa" by simp
    from mutex_invariant_unique [OF inv this g ha p] \<open>a \<noteq> g\<close> show False by simp
  qed
  with a ha l show "locked (s\<lparr> locked := l, goroutines := (goroutines s)(g \<mapsto> p') \<rparr>)"
    by simp
qed

lemma mutex_invariant_fields:
  "locked s = locked t \<Longrightarrow> goroutines s = goroutines t \<Longrightarrow> mutex_invariant s = mutex_invariant t"
  by (simp add: mutex_invariant_def)

lemma holder_steps:
  assumes inv: "mutex_invariant s" and g: "goroutines s g = Some p" and p: "holds_mutex p"
  shows "mutex_invariant (s\<lparr> goroutines := (goroutines s)(g \<mapsto> p') \<rparr>)"
proof -
  have l: "locked s" by (rule mutex_invariant_locked [OF inv g p])
  have "mutex_invariant (s\<lparr> locked := locked s, goroutines := (goroutines s)(g \<mapsto> p') \<rparr>)"
    by (rule holder_moves [OF inv g p]) (simp add: l)
  moreover have "mutex_invariant (s\<lparr> locked := locked s, goroutines := (goroutines s)(g \<mapsto> p') \<rparr>) =
      mutex_invariant (s\<lparr> goroutines := (goroutines s)(g \<mapsto> p') \<rparr>)"
    by (rule mutex_invariant_fields) simp_all
  ultimately show ?thesis by blast
qed

lemma modelLoaded_irrelevant:
  "mutex_invariant (s\<lparr> modelLoaded := b \<rparr>) = mutex_invariant s"
  by (simp add: mutex_invariant_def)

lemma run_step_invariant:
  assumes inv: "mutex_invariant s" and g: "goroutines s g = Some p"
  shows "mutex_invariant (run_step g ok p s)"
proof (cases p)
  case (AtLock r)
  show ?thesis
  proof (cases "locked s")
    case True
    with inv AtLock show ?thesis by (simp add: run_step_def)
  next
    case False
    have none: "\<not> holds_mutex q" if "goroutines s h = Some q" for h q
      using mutex_invariant_locked [OF inv that] False by blast
    define p' where "p' = (if r = TranscribeAudio then ModelCheck else InBody r)"
    have "mutex_invariant (s\<lparr> locked := True, goroutines := (goroutines s)(g \<mapsto> p') \<rparr>)"
    proof (rule mutex_invariantI)
      fix a b pa pb
      assume "goroutines (s\<lparr> locked := True, goroutines := (goroutines s)(g \<mapsto> p') \<rparr>) a = Some pa"
        "goroutines (s\<lparr> locked := True, goroutines := (goroutines s)(g \<mapsto> p') \<rparr>) b = Some pb"
        "holds_mutex pa" "holds_mutex pb"
      then show "a = b"
        using none by (auto split: if_splits)
    next
      fix a pa
      show "locked (s\<lparr> locked := True, goroutines := (goroutines s)(g \<mapsto> p') \<rparr>)"
        by simp
    qed
    with False AtLock show ?thesis by (simp add: run_step_def p'_def)
  qed
next
  case ModelCheck
  then have h: "holds_mutex p" by simp
  show ?thesis
    unfolding ModelCheck run_step_def by (simp add: holder_steps [OF inv g h])
next
  case Transcribing
  then have h: "holds_mutex p" by simp
  show ?thesis
    unfolding Transcribing run_step_def by (simp add: holder_steps [OF inv g h])
next
  case Emitting
  then have h: "holds_mutex p" by simp
  show ?thesis
    unfolding Emitting run_step_def by (simp add: holder_steps [OF inv g h])
next
  case (InBody r)
  then have h: "holds_mutex p" by simp
  have "mutex_invariant ((s\<lparr> goroutines := (goroutines s)(g \<mapsto> AtUnlock) \<rparr>)
      \<lparr> modelLoaded := (if r = CloseService then False else modelLoaded s) \<rparr>)"
    unfolding modelLoaded_irrelevant by (rule holder_steps [OF inv g h])
  then show ?thesis
    unfolding InBody run_step_def by simp
next
  case AtUnlock
  then have h: "holds_mutex p" by simp
  from holder_moves [OF inv g h, of Finished False]
  show ?thesis
    unfolding AtUnlock run_step_def by simp
next
  case Finished
  with inv show ?thesis by (simp add: run_step_def)
qed

lemma exec_event_invariant:
  assumes inv: "mutex_invariant s"
  shows "mutex_invariant (exec_event ev s)"
proof (cases ev)
  case (Go g r)
  show ?thesis
  proof (cases "goroutines s g")
    case None
    have "mutex_invariant (s\<lparr> goroutines := (goroutines s)(g \<mapsto> AtLock r) \<rparr>)"
    proof (rule mutex_invariantI)
      fix a b pa pb
      assume "goroutines (s\<lparr> goroutines := (goroutines s)(g \<mapsto> AtLock r) \<rparr>) a = Some pa"
        "goroutines (s\<lparr> goroutines := (goroutines s)(g \<mapsto> AtLock r) \<rparr>) b = Some pb"
        "holds_mutex pa" "holds_mutex pb"
      then show "a = b"
        using mutex_invariant_unique [OF inv, of a pa b pb] by (auto split: if_splits)
    next
      fix a pa
      assume "goroutines (s\<lparr> goroutines := (goroutines s)(g \<mapsto> AtLock r) \<rparr>) a = Some pa"
        "holds_mutex pa"
      then show "locked (s\<lparr> goroutines := (goroutines s)(g \<mapsto> AtLock r) \<rparr>)"
        using mutex_invariant_locked [OF inv, of a pa] by (auto split: if_splits)
    qed
    with Go None show ?thesis by (simp add: exec_event_def)
  next
    case (Some p)
    with Go inv show ?thesis by (simp add: exec_event_def)
  qed
next
  case (Run g ok)
  with inv show ?thesis
    by (auto simp: exec_event_def run_step_invariant split: option.splits)
qed

lemma schedule_invariant: "mutex_invariant (schedule evs)"
proof (induction evs rule: rev_induct)
  case Nil
  show ?case by (simp add: schedule_def mutex_invariant_init)
next
  case (snoc ev evs)
  then show ?case by (simp add: schedule_def exec_event_invariant)
qed

text \<open>
  Claim C6. Under every schedule of goroutines running \<open>transcribeAudio\<close>, \<open>Close\<close>
  and \<open>Initialize\<close>, whenever a goroutine is inside \<open>Model.Transcribe\<close> the mutex
  \<open>s.mu\<close> is locked and no other goroutine is inside \<open>Model.Transcribe\<close>: the calls
  are serialized by the mutex and never overlap.
\<close>

theorem Transcribe_never_concurrent:
  assumes "goroutines (schedule evs) g = Some Transcribing"
  shows "locked (schedule evs) \<and>
         (\<forall>h. h \<noteq> g \<longrightarrow> goroutines (schedule evs) h \<noteq> Some Transcribing)"
proof -
  have t: "holds_mutex Transcribing" by simp
  have "locked (schedule evs)"
    by (rule mutex_invariant_locked [OF schedule_invariant assms t])
  moreover have "goroutines (schedule evs) h \<noteq> Some Transcribing" if "h \<noteq> g" for h
    using mutex_invariant_unique [OF schedule_invariant _ assms t t, of h] that by blast
  ultimately show ?thesis by blast
qed

text \<open>
  Two workers dispatched by overlapping flushes: the first is inside the engine call,
  the second, though given a turn, is still waiting at \<open>Lock\<close>.
\<close>

lemma two_workers:
  "schedule [Go 0 TranscribeAudio, Go 1 TranscribeAudio, Run 0 True, Run 0 True, Run 1 True] =
     \<lparr> locked = True, goroutines = [0 \<mapsto> Transcribing, 1 \<mapsto> AtLock TranscribeAudio],
       modelLoaded = True \<rparr>"
  by (simp add: schedule_def exec_event_def run_step_def sched_init_def fun_upd_twist)

theorem Transcribe_never_concurrent_witness:
  "goroutines (schedule [Go 0 TranscribeAudio, Go 1 TranscribeAudio, Run 0 True, Run 0 True, Run 1 True]) 0 =
     Some Transcribing \<and>
   locked (schedule [Go 0 TranscribeAudio, Go 1 TranscribeAudio, Run 0 True, Run 0 True, Run 1 True]) \<and>
   goroutines (schedule [Go 0 TranscribeAudio, Go 1 TranscribeAudio, Run 0 True, Run 0 True, Run 1 True]) 1 =
     Some (AtLock TranscribeAudio)"
proof -
  let ?s = "schedule [Go 0 TranscribeAudio, Go 1 TranscribeAudio, Run 0 True, Run 0 True, Run 1 True]"
  have a: "goroutines ?s 0 = Some Transcribing"
    unfolding two_workers by simp
  from Transcribe_never_concurrent [OF a] have "locked ?s"
    by (rule conjunct1)
  moreover have "goroutines ?s 1 = Some (AtLock TranscribeAudio)"
    unfolding two_workers by simp
  ultimately show ?thesis using a by (intro conjI)
qed

end
